theory Spec2Isabelle
  imports Main "HOL-Library.Char_ord" "HOL-Library.List_Lexorder"
begin

section \<open>Date extraction from sequence labels\<close>

text \<open>
  The script \<^verbatim>\<open>bin/read-sequences.py\<close> reads FASTA records, cuts a date out of
  every record label with the regular expression \<^verbatim>\<open>(\d{4}-\d{2}-\d{2})\<close>, tabulates
  the records and counts them per year, month and day.

  Labels are modelled as \<^typ>\<open>string\<close>, that is as lists of code points below 256;
  in that range the class \<^verbatim>\<open>\d\<close> of Python's \<^verbatim>\<open>re\<close> module is exactly the
  ten ASCII digits.
\<close>

datatype atom = Digit | Lit char

definition is_digit :: "char \<Rightarrow> bool" where
  "is_digit c \<longleftrightarrow> c \<in> set ''0123456789''"

fun atom_ok :: "atom \<Rightarrow> char \<Rightarrow> bool" where
  "atom_ok Digit c = is_digit c"
| "atom_ok (Lit x) c = (c = x)"

text \<open>Does the fixed-width pattern match at the very start of the text?\<close>

fun match_here :: "atom list \<Rightarrow> string \<Rightarrow> bool" where
  "match_here [] s = True"
| "match_here (a # as) [] = False"
| "match_here (a # as) (c # cs) = (atom_ok a c \<and> match_here as cs)"

text \<open>
  \<^verbatim>\<open>re.search\<close> for a fixed-width pattern: the start positions are tried from left
  to right and the first one where the pattern matches gives the match.
\<close>

fun re_search :: "atom list \<Rightarrow> string \<Rightarrow> string option" where
  "re_search pat [] = (if match_here pat [] then Some [] else None)"
| "re_search pat (c # cs) =
     (if match_here pat (c # cs) then Some (take (length pat) (c # cs))
      else re_search pat cs)"

definition date_pattern :: "atom list" where
  "date_pattern =
     [Digit, Digit, Digit, Digit, Lit CHR ''-'', Digit, Digit, Lit CHR ''-'', Digit, Digit]"

definition parse_date_from_label :: "string \<Rightarrow> string" where
  "parse_date_from_label label =
     (case re_search date_pattern label of
        Some m \<Rightarrow> m
      | None \<Rightarrow> ''N/A'')"

text \<open>
  \<^verbatim>\<open>str.split(sep)\<close> for a one-character separator: the pieces between the
  separators, empty pieces kept; the empty string gives one empty piece.
\<close>

fun split_on :: "char \<Rightarrow> string \<Rightarrow> string list" where
  "split_on sep [] = [[]]"
| "split_on sep (c # cs) =
     (if c = sep then [] # split_on sep cs
      else (case split_on sep cs of
              [] \<Rightarrow> [[c]]
            | p # ps \<Rightarrow> (c # p) # ps))"

text \<open>
  The shape the pattern asks for, stated on a candidate substring: ten characters, four
  digits, a dash, two digits, a dash, two digits.
\<close>

definition date_shaped :: "string \<Rightarrow> bool" where
  "date_shaped d \<longleftrightarrow>
     length d = 10 \<and> list_all is_digit (take 4 d) \<and> d ! 4 = CHR ''-'' \<and>
     list_all is_digit (take 2 (drop 5 d)) \<and> d ! 7 = CHR ''-'' \<and>
     list_all is_digit (drop 8 d)"

section \<open>The record table\<close>

datatype error =
    IndexError
  | KeyError string
  | OSError string
  | SystemExit nat

datatype cell = PyInt int | PyStr string

type_synonym dict = "(string \<times> cell) list"

text \<open>
  A file object is a handle together with the records that \<^verbatim>\<open>SeqIO.parse(file, 'fasta')\<close>
  yields from it, each as the pair of \<^verbatim>\<open>record.id\<close> and \<^verbatim>\<open>str(record.seq)\<close>.
\<close>

datatype handle = Stdin | Named string

fun file_name :: "handle \<Rightarrow> string" where
  "file_name Stdin = ''<stdin>''"
| "file_name (Named path) = path"

type_synonym fasta = "(string \<times> string) list"

type_synonym infile = "handle \<times> fasta"

datatype diag =
    ReadingStdin
  | UsageError
  | Traceback error
  | TotalRead int
  | TotalParsed int
  | TotalUnknown int
  | UnknownHeader
  | UnknownLabel string

text \<open>\<^verbatim>\<open>xs[i]\<close> for a non-negative literal index: out of range raises.\<close>

definition getitem :: "'a list \<Rightarrow> nat \<Rightarrow> error + 'a" where
  "getitem xs i = (if i < length xs then Inr (xs ! i) else Inl IndexError)"

text \<open>\<^verbatim>\<open>date.split('-')[i] if date != 'N/A' else 'N/A'\<close>\<close>

definition date_field :: "string \<Rightarrow> nat \<Rightarrow> error + string" where
  "date_field date i =
     (if date \<noteq> ''N/A'' then getitem (split_on CHR ''-'' date) i else Inr ''N/A'')"

text \<open>The dictionary appended for one record (lines 29 to 40 of the script).\<close>

definition sequence_row :: "handle \<Rightarrow> nat \<Rightarrow> string \<times> string \<Rightarrow> error + dict" where
  "sequence_row file record_idx record =
     (let date = parse_date_from_label (fst record);
          sequence = snd record
      in case date_field date 0 of Inl e \<Rightarrow> Inl e | Inr year \<Rightarrow>
         (case date_field date 1 of Inl e \<Rightarrow> Inl e | Inr month \<Rightarrow>
         (case date_field date 2 of Inl e \<Rightarrow> Inl e | Inr day \<Rightarrow>
            Inr [(''sequenceLabel'', PyStr (fst record)),
                 (''sequenceCharacters'', PyStr sequence),
                 (''sequenceDateISO'', PyStr date),
                 (''sequenceDateYear'', PyStr year),
                 (''sequenceDateMonth'', PyStr month),
                 (''sequenceDateDay'', PyStr day),
                 (''sequenceLengthMin'', PyInt (int (length sequence))),
                 (''sequenceLengthMax'', PyInt (int (length sequence))),
                 (''sequenceSourcePath'',
                    PyStr (if file_name file \<noteq> ''<stdin>'' then file_name file
                           else ''standard input'')),
                 (''sequenceSourceOffset'', PyInt (int record_idx))])))"

text \<open>
  The inner loop of \<^verbatim>\<open>parse_sequences\<close> over the records of one file; the state is
  the pair of the lists \<^verbatim>\<open>sequences\<close> and \<^verbatim>\<open>unknown_labels\<close>.
\<close>

fun parse_records ::
  "handle \<Rightarrow> nat \<Rightarrow> fasta \<Rightarrow> dict list \<times> string list \<Rightarrow> error + dict list \<times> string list"
where
  "parse_records file record_idx [] st = Inr st"
| "parse_records file record_idx (record # rest) (sequences, unknown_labels) =
     (let date = parse_date_from_label (fst record);
          unknown_labels' =
            (if date = ''N/A'' then unknown_labels @ [fst record] else unknown_labels)
      in case sequence_row file record_idx record of
           Inl e \<Rightarrow> Inl e
         | Inr row \<Rightarrow>
             parse_records file (Suc record_idx) rest (sequences @ [row], unknown_labels'))"

text \<open>The outer loop over the files; the third component is what went to standard error.\<close>

fun parse_files ::
  "infile list \<Rightarrow> (dict list \<times> string list) \<times> diag list \<Rightarrow>
     error + (dict list \<times> string list) \<times> diag list"
where
  "parse_files [] acc = Inr acc"
| "parse_files ((file, records) # rest) (st, err) =
     (let err' = (if file_name file = ''<stdin>'' then err @ [ReadingStdin] else err)
      in case parse_records file 0 records st of
           Inl e \<Rightarrow> Inl e
         | Inr st' \<Rightarrow> parse_files rest (st', err'))"

definition parse_sequences :: "infile list \<Rightarrow> error + (dict list \<times> string list) \<times> diag list"
where
  "parse_sequences files = parse_files files (([], []), [])"

section \<open>Data frames and the aggregations\<close>

text \<open>
  What the script uses of pandas. \<^verbatim>\<open>pd.DataFrame(list_of_dicts)\<close> takes as columns
  the keys of the dictionaries in order of first appearance (so an empty list gives a
  frame with no columns at all) and one row per dictionary; a key that a dictionary
  lacks gives an empty cell (\<open>None\<close>, pandas' NaN).
\<close>

record dataframe =
  columns :: "string list"
  rows :: "cell option list list"

fun uniq :: "'a list \<Rightarrow> 'a list" where
  "uniq [] = []"
| "uniq (x # xs) = x # uniq (filter (\<lambda>y. y \<noteq> x) xs)"

definition DataFrame :: "dict list \<Rightarrow> dataframe" where
  "DataFrame data =
     (let cols = uniq (concat (map (map fst) data))
      in \<lparr>columns = cols, rows = map (\<lambda>d. map (map_of d) cols) data\<rparr>)"

definition value_at :: "string list \<Rightarrow> cell option list \<Rightarrow> string \<Rightarrow> cell option" where
  "value_at cols row c = (case map_of (zip cols row) c of Some v \<Rightarrow> v | None \<Rightarrow> None)"

text \<open>
  Group keys are sorted the way pandas sorts them: tuples lexicographically, strings by
  code point. The grouping columns of this script hold strings only; for the order to
  be total on cells, numbers are put before strings.
\<close>

instantiation cell :: linorder
begin

fun less_eq_cell :: "cell \<Rightarrow> cell \<Rightarrow> bool" where
  "less_eq_cell (PyInt a) (PyInt b) = (a \<le> b)"
| "less_eq_cell (PyInt a) (PyStr b) = True"
| "less_eq_cell (PyStr a) (PyInt b) = False"
| "less_eq_cell (PyStr a) (PyStr b) = (a \<le> b)"

definition less_cell :: "cell \<Rightarrow> cell \<Rightarrow> bool" where
  "less_cell x y \<longleftrightarrow> x \<le> y \<and> \<not> y \<le> x"

instance
proof
  fix x y z :: cell
  show "(x < y) = (x \<le> y \<and> \<not> y \<le> x)"
    by (simp add: less_cell_def)
  show "x \<le> x"
    by (cases x) simp_all
  show "x \<le> y \<Longrightarrow> y \<le> z \<Longrightarrow> x \<le> z"
    by (cases x; cases y; cases z) auto
  show "x \<le> y \<Longrightarrow> y \<le> x \<Longrightarrow> x = y"
    by (cases x; cases y) auto
  show "x \<le> y \<or> y \<le> x"
    by (cases x; cases y) auto
qed

end

text \<open>
  \<^verbatim>\<open>df.groupby(by).size().reset_index(name=...)\<close>: a grouping column that the frame
  does not have raises \<^verbatim>\<open>KeyError\<close>; rows with an empty cell in a grouping column
  are dropped; the distinct keys come out in ascending order, each with the number of
  rows that carry it.
\<close>

definition groupby_size :: "string list \<Rightarrow> string \<Rightarrow> dataframe \<Rightarrow> error + dataframe" where
  "groupby_size by name df =
     (case filter (\<lambda>c. c \<notin> set (columns df)) by of
        c # _ \<Rightarrow> Inl (KeyError c)
      | [] \<Rightarrow>
          (let keys = List.map_filter
                        (\<lambda>row. those (map (value_at (columns df) row) by)) (rows df);
               groups = sort (uniq keys)
           in Inr \<lparr>columns = by @ [name],
                   rows = map (\<lambda>k. map Some k @
                                 [Some (PyInt (int (length (filter (\<lambda>k'. k' = k) keys))))])
                              groups\<rparr>))"

section \<open>Writing the tables\<close>

text \<open>
  The serialisers are pandas' own; a call of one of them is recorded as it is made,
  with its destination, its separator and the frame it is given.
  \<open>ToJson\<close> stands for \<^verbatim>\<open>to_json(dest, orient='records', lines=True)\<close> and
  \<open>ToCsv\<close> for \<^verbatim>\<open>to_csv(dest, index=False, sep=...)\<close>. Destinations are taken to be
  writable.
\<close>

datatype target = Stdout | OutFile string | Path string

datatype written = ToJson target dataframe | ToCsv target string dataframe

text \<open>The chain of \<^verbatim>\<open>if\<close>/\<^verbatim>\<open>elif\<close> on the format, as lines 79 to 84 and 54 to 59 have it.\<close>

definition write_table :: "string \<Rightarrow> target \<Rightarrow> dataframe \<Rightarrow> written list" where
  "write_table fmt dest df =
     (if fmt = ''json'' then [ToJson dest df]
      else if fmt = ''csv'' then [ToCsv dest '','' df]
      else if fmt = ''tsv'' then [ToCsv dest [CHR 0x09] df]
      else [])"

definition summary_functions :: "(string \<times> string list) list" where
  "summary_functions =
     [(''yearly'', [''sequenceDateYear'']),
      (''monthly'', [''sequenceDateYear'', ''sequenceDateMonth'']),
      (''daily'', [''sequenceDateYear'', ''sequenceDateMonth'', ''sequenceDateDay''])]"

text \<open>
  The file name is \<^verbatim>\<open>f"{summarize_prefix}.{{}}".format(summary_name)\<close>. For a prefix
  without braces that is the prefix, a dot and the name. A prefix with braces is read
  by \<^verbatim>\<open>str.format\<close> as part of the template; what the built-in makes of it is the
  parameter \<open>str_format\<close>.
\<close>

definition format_filename ::
  "(string \<Rightarrow> string \<Rightarrow> error + string) \<Rightarrow> string \<Rightarrow> string \<Rightarrow> error + string" where
  "format_filename str_format summarize_prefix summary_name =
     (if CHR ''{'' \<notin> set summarize_prefix \<and> CHR ''}'' \<notin> set summarize_prefix
      then Inr (summarize_prefix @ ''.'' @ summary_name)
      else str_format (summarize_prefix @ ''.{}'') summary_name)"

text \<open>
  The loop of \<^verbatim>\<open>output_summaries\<close>; the state is the list of calls made so far, and
  an exception ends the loop with what was written before it.
\<close>

fun summaries_loop ::
  "(string \<Rightarrow> string \<Rightarrow> error + string) \<Rightarrow> dataframe \<Rightarrow> string \<Rightarrow> string \<Rightarrow>
     (string \<times> string list) list \<Rightarrow> written list \<Rightarrow> written list \<times> error option"
where
  "summaries_loop str_format df summarize_prefix summarize_format [] out = (out, None)"
| "summaries_loop str_format df summarize_prefix summarize_format
       ((summary_name, group_columns) # rest) out =
     (case groupby_size group_columns ''NumSequences'' df of
        Inl e \<Rightarrow> (out, Some e)
      | Inr summary_df \<Rightarrow>
          (case format_filename str_format summarize_prefix summary_name of
             Inl e \<Rightarrow> (out, Some e)
           | Inr filename \<Rightarrow>
               summaries_loop str_format df summarize_prefix summarize_format rest
                 (out @ write_table summarize_format (Path filename) summary_df)))"

definition output_summaries ::
  "(string \<Rightarrow> string \<Rightarrow> error + string) \<Rightarrow> dataframe \<Rightarrow> string \<Rightarrow> string \<Rightarrow>
     written list \<times> error option" where
  "output_summaries str_format df summarize_prefix summarize_format =
     summaries_loop str_format df summarize_prefix summarize_format summary_functions []"

section \<open>The command line and the run\<close>

text \<open>
  The options as given on the command line (\<open>None\<close> for an option that is not given),
  and the namespace that \<^verbatim>\<open>argparse\<close> makes of them. Both format options are declared
  with \<^verbatim>\<open>choices=['json', 'csv', 'tsv']\<close>: any other value makes \<^verbatim>\<open>parse_args\<close>
  print a usage error and leave with exit status 2.
\<close>

record argv =
  arg_paths :: "string list"
  arg_output_filepath :: "string option"
  arg_output_format :: "string option"
  arg_summarize :: "string option"
  arg_summarize_format :: "string option"

record args =
  paths :: "string list"
  output_filepath :: target
  output_format :: string
  summarize :: "string option"
  summarize_format :: "string option"

definition choices :: "string list" where
  "choices = [''json'', ''csv'', ''tsv'']"

definition invalid_choice :: "string option \<Rightarrow> bool" where
  "invalid_choice opt = (case opt of None \<Rightarrow> False | Some v \<Rightarrow> v \<notin> set choices)"

definition parse_args :: "argv \<Rightarrow> error + args" where
  "parse_args av =
     (if invalid_choice (arg_output_format av) \<or> invalid_choice (arg_summarize_format av)
      then Inl (SystemExit 2)
      else Inr \<lparr>paths = (if arg_paths av = [] then [''-''] else arg_paths av),
                output_filepath =
                  (case arg_output_filepath av of
                     None \<Rightarrow> Stdout
                   | Some p \<Rightarrow> if p = ''-'' then Stdout else OutFile p),
                output_format =
                  (case arg_output_format av of None \<Rightarrow> ''json'' | Some f \<Rightarrow> f),
                summarize = arg_summarize av,
                summarize_format = arg_summarize_format av\<rparr>)"

text \<open>
  The world outside the script: the records waiting on standard input, the FASTA
  content of every path that can be opened (\<open>None\<close> for a path that cannot), and the
  built-in \<^verbatim>\<open>str.format\<close> on templates with braces in the prefix.
\<close>

record world =
  stdin :: fasta
  disk :: "string \<Rightarrow> fasta option"
  str_format :: "string \<Rightarrow> string \<Rightarrow> error + string"

text \<open>
  Line 72: \<^verbatim>\<open>[open(file, 'r') if file != '-' else sys.stdin for file in args.paths]\<close>.
  A path that cannot be opened raises, with the handles opened before it left as they
  are. Standard input is one stream: read to its end through the first \<^verbatim>\<open>-\<close>, it
  has nothing left for a later one (the flag \<open>used\<close>).
\<close>

fun open_inputs ::
  "world \<Rightarrow> bool \<Rightarrow> string list \<Rightarrow> infile list \<Rightarrow> infile list \<times> error option" where
  "open_inputs w used [] input_files = (input_files, None)"
| "open_inputs w used (file # rest) input_files =
     (if file \<noteq> ''-'' then
        (case disk w file of
           None \<Rightarrow> (input_files, Some (OSError file))
         | Some records \<Rightarrow> open_inputs w used rest (input_files @ [(Named file, records)]))
      else open_inputs w True rest (input_files @ [(Stdin, if used then [] else stdin w)]))"

text \<open>
  The closing loop of lines 101 to 103. Its body is the expression \<^verbatim>\<open>file.close\<close>,
  an attribute that is looked up and not called, so the loop leaves the list of open
  handles as it finds it.
\<close>

fun close_inputs :: "infile list \<Rightarrow> handle list \<Rightarrow> handle list" where
  "close_inputs [] open_handles = open_handles"
| "close_inputs ((file, records) # rest) open_handles =
     (if file \<noteq> Stdin then close_inputs rest open_handles
      else close_inputs rest open_handles)"

text \<open>
  Lines 87 to 89. The tests \<^verbatim>\<open>if args.summarize\<close> and \<^verbatim>\<open>if args.summarize_format\<close>
  are tests for truth: \<^verbatim>\<open>None\<close> and the empty string both fail them.
\<close>

definition summarize_step ::
  "(string \<Rightarrow> string \<Rightarrow> error + string) \<Rightarrow> args \<Rightarrow> dataframe \<Rightarrow> written list \<times> error option"
where
  "summarize_step formatter args df =
     (case summarize args of
        None \<Rightarrow> ([], None)
      | Some summarize_prefix \<Rightarrow>
          if summarize_prefix = [] then ([], None)
          else output_summaries formatter df summarize_prefix
                 (case summarize_format args of
                    None \<Rightarrow> output_format args
                  | Some f \<Rightarrow> if f = [] then output_format args else f))"

text \<open>
  What a run leaves behind: how it ended (\<open>None\<close> for a normal end, the exception or
  exit otherwise), the handles obtained from \<^verbatim>\<open>open\<close> on which \<^verbatim>\<open>close\<close> was never
  called, the serialiser calls in order, and the lines on standard error.
\<close>

record run =
  status :: "error option"
  open_handles :: "handle list"
  outputs :: "written list"
  stderr :: "diag list"

definition report :: "dict list \<Rightarrow> dataframe \<Rightarrow> string list \<Rightarrow> diag list" where
  "report sequences df unknown_labels =
     [TotalRead (int (length sequences)),
      TotalParsed (int (length (rows df)) - int (length unknown_labels)),
      TotalUnknown (int (length unknown_labels))] @
     (if unknown_labels \<noteq> [] then UnknownHeader # map UnknownLabel unknown_labels else [])"

definition opened :: "infile list \<Rightarrow> handle list" where
  "opened input_files = filter (\<lambda>h. h \<noteq> Stdin) (map fst input_files)"

definition main :: "world \<Rightarrow> argv \<Rightarrow> run" where
  "main w av =
     (case parse_args av of
        Inl e \<Rightarrow> \<lparr>status = Some e, open_handles = [], outputs = [], stderr = [UsageError]\<rparr>
      | Inr args \<Rightarrow>
          (case open_inputs w False (paths args) [] of
             (input_files, Some e) \<Rightarrow>
               \<lparr>status = Some e, open_handles = opened input_files, outputs = [],
                stderr = [Traceback e]\<rparr>
           | (input_files, None) \<Rightarrow>
               (case parse_sequences input_files of
                  Inl e \<Rightarrow>
                    \<lparr>status = Some e, open_handles = opened input_files, outputs = [],
                     stderr = [Traceback e]\<rparr>
                | Inr ((sequences, unknown_labels), notices) \<Rightarrow>
                    (let df = DataFrame sequences;
                         primary = write_table (output_format args) (output_filepath args) df;
                         (summaries, raised) = summarize_step (str_format w) args df
                     in case raised of
                          Some e \<Rightarrow>
                            \<lparr>status = Some e, open_handles = opened input_files,
                             outputs = primary @ summaries,
                             stderr = notices @ [Traceback e]\<rparr>
                        | None \<Rightarrow>
                            \<lparr>status = None,
                             open_handles = close_inputs input_files (opened input_files),
                             outputs = primary @ summaries,
                             stderr = notices @ report sequences df unknown_labels\<rparr>))))"

section \<open>Reading rows, runs and calls\<close>


text \<open>A label contains a date-shaped substring: at some offset, the next ten characters have the shape.\<close>

definition contains_date :: "string \<Rightarrow> bool" where
  "contains_date label \<longleftrightarrow>
     list_ex (\<lambda>i. date_shaped (take 10 (drop i label))) [0..<Suc (length label)]"

definition labels_of :: "infile list \<Rightarrow> string list" where
  "labels_of files = concat (map (\<lambda>f. map fst (snd f)) files)"

text \<open>Of a serialiser call: where it writes, which of the three formats it is, and the frame.\<close>

fun dest :: "written \<Rightarrow> target" where
  "dest (ToJson d df) = d"
| "dest (ToCsv d sep df) = d"

fun rendering :: "written \<Rightarrow> string" where
  "rendering (ToJson d df) = ''json''"
| "rendering (ToCsv d sep df) =
     (if sep = '','' then ''csv'' else if sep = [CHR 0x09] then ''tsv'' else ''other'')"

fun table :: "written \<Rightarrow> dataframe" where
  "table (ToJson d df) = df"
| "table (ToCsv d sep df) = df"

definition is_summary :: "written \<Rightarrow> bool" where
  "is_summary x = (case dest x of Path f \<Rightarrow> True | _ \<Rightarrow> False)"

text \<open>The counts of an aggregation result: the last cell of each row.\<close>

definition num_sequences :: "dataframe \<Rightarrow> int list" where
  "num_sequences s = map (\<lambda>row. case last row of Some (PyInt n) \<Rightarrow> n | _ \<Rightarrow> 0) (rows s)"

text \<open>The numbers and labels of the closing report on standard error.\<close>

definition total_read :: "diag list \<Rightarrow> int list" where
  "total_read ds = concat (map (\<lambda>d. case d of TotalRead n \<Rightarrow> [n] | _ \<Rightarrow> []) ds)"

definition total_parsed :: "diag list \<Rightarrow> int list" where
  "total_parsed ds = concat (map (\<lambda>d. case d of TotalParsed n \<Rightarrow> [n] | _ \<Rightarrow> []) ds)"

definition total_unknown :: "diag list \<Rightarrow> int list" where
  "total_unknown ds = concat (map (\<lambda>d. case d of TotalUnknown n \<Rightarrow> [n] | _ \<Rightarrow> []) ds)"

definition unknown_listed :: "diag list \<Rightarrow> string list" where
  "unknown_listed ds = concat (map (\<lambda>d. case d of UnknownLabel l \<Rightarrow> [l] | _ \<Rightarrow> []) ds)"

text \<open>
  The closed form of the table: the ten keys of a record's dictionary in the order of
  the dictionary literal, the ten values of a record, and the rows of all files in the
  order in which the loops meet them.
\<close>

definition sequence_columns :: "string list" where
  "sequence_columns =
     [''sequenceLabel'', ''sequenceCharacters'', ''sequenceDateISO'', ''sequenceDateYear'',
      ''sequenceDateMonth'', ''sequenceDateDay'', ''sequenceLengthMin'', ''sequenceLengthMax'',
      ''sequenceSourcePath'', ''sequenceSourceOffset'']"

definition row_values :: "handle \<Rightarrow> nat \<Rightarrow> string \<times> string \<Rightarrow> cell list" where
  "row_values file idx record =
     (let label = fst record; sequence = snd record; date = parse_date_from_label label
      in [PyStr label, PyStr sequence, PyStr date,
          PyStr (if contains_date label then take 4 date else ''N/A''),
          PyStr (if contains_date label then take 2 (drop 5 date) else ''N/A''),
          PyStr (if contains_date label then drop 8 date else ''N/A''),
          PyInt (int (length sequence)), PyInt (int (length sequence)),
          PyStr (if file_name file \<noteq> ''<stdin>'' then file_name file else ''standard input''),
          PyInt (int idx)])"

fun rows_of :: "handle \<Rightarrow> nat \<Rightarrow> fasta \<Rightarrow> cell list list" where
  "rows_of file idx [] = []"
| "rows_of file idx (record # rest) = row_values file idx record # rows_of file (Suc idx) rest"

definition table_rows :: "infile list \<Rightarrow> cell list list" where
  "table_rows files = concat (map (\<lambda>f. rows_of (fst f) 0 (snd f)) files)"

definition notices_of :: "infile list \<Rightarrow> diag list" where
  "notices_of files =
     concat (map (\<lambda>f. if file_name (fst f) = ''<stdin>'' then [ReadingStdin] else []) files)"

text \<open>The group keys of the rows that have one, in row order.\<close>

definition group_keys :: "string list \<Rightarrow> dataframe \<Rightarrow> cell list list" where
  "group_keys by df =
     List.map_filter (\<lambda>row. those (map (value_at (columns df) row) by)) (rows df)"

text \<open>The formats in force for a command line: the primary one, and the one for summaries.\<close>

definition selected_format :: "argv \<Rightarrow> string" where
  "selected_format av = (case arg_output_format av of None \<Rightarrow> ''json'' | Some f \<Rightarrow> f)"

definition selected_summary_format :: "argv \<Rightarrow> string" where
  "selected_summary_format av =
     (case arg_summarize_format av of None \<Rightarrow> selected_format av | Some f \<Rightarrow> f)"

text \<open>
  A world and command lines to run the script on: standard input holds one dated and one
  undated record, the file \<^verbatim>\<open>b.fasta\<close> two records of the same day, and no other
  path can be opened. The prefix \<^verbatim>\<open>out\<close> has no braces, so \<open>str_format\<close> is never
  asked.
\<close>

definition scenario_world :: world where
  "scenario_world =
     \<lparr>stdin = [(''seqA|2021-03-15'', ''ACGT''), (''seqB|no-date-here'', ''AC'')],
      disk = (\<lambda>p. if p = ''b.fasta''
                    then Some [(''x|2020-01-01'', ''A''), (''y|2020-01-01'', ''CC'')]
                    else None),
      str_format = (\<lambda>template arg. Inl IndexError)\<rparr>"

definition scenario_argv :: "string option \<Rightarrow> string option \<Rightarrow> argv" where
  "scenario_argv f sf =
     \<lparr>arg_paths = [''-'', ''b.fasta''], arg_output_filepath = None, arg_output_format = f,
      arg_summarize = Some ''out'', arg_summarize_format = sf\<rparr>"


section \<open>The search finds the leftmost match\<close>

lemma match_here_length: "match_here pat s \<Longrightarrow> length pat \<le> length s"
  by (induction pat s rule: match_here.induct) auto

lemma match_here_take: "match_here pat s \<Longrightarrow> match_here pat (take (length pat) s)"
  by (induction pat s rule: match_here.induct) auto

lemma match_here_append: "match_here pat s \<Longrightarrow> match_here pat (s @ t)"
  by (induction pat s rule: match_here.induct) auto

lemma re_search_Some:
  "re_search pat s = Some m \<Longrightarrow>
     \<exists>p t. s = p @ t \<and> match_here pat t \<and> m = take (length pat) t \<and>
           (\<forall>p' t'. s = p' @ t' \<and> match_here pat t' \<longrightarrow> length p \<le> length p')"
proof (induction s)
  case Nil
  then show ?case by (auto split: if_splits)
next
  case (Cons c cs)
  show ?case
  proof (cases "match_here pat (c # cs)")
    case True
    with Cons.prems have "m = take (length pat) (c # cs)" by simp
    with True show ?thesis by (intro exI[of _ "[]"] exI[of _ "c # cs"]) simp
  next
    case False
    with Cons.prems have "re_search pat cs = Some m" by simp
    from Cons.IH[OF this] obtain p t where
      pt: "cs = p @ t" "match_here pat t" "m = take (length pat) t"
      and least: "\<forall>p' t'. cs = p' @ t' \<and> match_here pat t' \<longrightarrow> length p \<le> length p'"
      by blast
    have "length (c # p) \<le> length p'" if "c # cs = p' @ t'" "match_here pat t'" for p' t'
    proof (cases p')
      case Nil
      with that False show ?thesis by simp
    next
      case (Cons a q)
      with that have "cs = q @ t'" by simp
      with least that(2) have "length p \<le> length q" by blast
      with Cons show ?thesis by simp
    qed
    with pt show ?thesis
      by (intro exI[of _ "c # p"] exI[of _ t]) auto
  qed
qed

lemma re_search_None:
  "re_search pat s = None \<Longrightarrow> s = p @ t \<Longrightarrow> \<not> match_here pat t"
proof (induction s arbitrary: p)
  case Nil
  then show ?case by (auto split: if_splits)
next
  case (Cons c cs)
  then show ?case
    by (cases p) (auto split: if_splits)
qed

lemma date_shaped_iff: "date_shaped d \<longleftrightarrow> match_here date_pattern d \<and> length d = 10"
proof
  assume "date_shaped d"
  then have len: "length d = 10" by (simp add: date_shaped_def)
  then obtain a b c e f g h i j k where d: "d = [a, b, c, e, f, g, h, i, j, k]"
    by (auto simp: length_Suc_conv numeral_eq_Suc)
  with \<open>date_shaped d\<close> show "match_here date_pattern d \<and> length d = 10"
    by (simp add: date_shaped_def date_pattern_def)
next
  assume m: "match_here date_pattern d \<and> length d = 10"
  then obtain a b c e f g h i j k where d: "d = [a, b, c, e, f, g, h, i, j, k]"
    by (auto simp: length_Suc_conv numeral_eq_Suc)
  with m show "date_shaped d"
    by (simp add: date_shaped_def date_pattern_def)
qed

lemma not_digit_dash: "\<not> is_digit CHR ''-''"
  by (simp add: is_digit_def)

lemma date_shaped_split:
  assumes "date_shaped d"
  shows "split_on CHR ''-'' d = [take 4 d, take 2 (drop 5 d), drop 8 d]" and "d \<noteq> ''N/A''"
proof -
  from assms have len: "length d = 10" by (simp add: date_shaped_def)
  then obtain a b c e f g h i j k where d: "d = [a, b, c, e, f, g, h, i, j, k]"
    by (auto simp: length_Suc_conv numeral_eq_Suc)
  from assms d have "is_digit a" "is_digit b" "is_digit c" "is_digit e" "f = CHR ''-''"
    "is_digit g" "is_digit h" "i = CHR ''-''" "is_digit j" "is_digit k"
    by (simp_all add: date_shaped_def)
  then have "a \<noteq> CHR ''-''" "b \<noteq> CHR ''-''" "c \<noteq> CHR ''-''" "e \<noteq> CHR ''-''" "f = CHR ''-''"
    "g \<noteq> CHR ''-''" "h \<noteq> CHR ''-''" "i = CHR ''-''" "j \<noteq> CHR ''-''" "k \<noteq> CHR ''-''"
    using not_digit_dash by auto
  with d show "split_on CHR ''-'' d = [take 4 d, take 2 (drop 5 d), drop 8 d]"
    by simp
  from len show "d \<noteq> ''N/A''" by auto
qed

lemma contains_date_iff:
  "contains_date label \<longleftrightarrow> (\<exists>p d s. label = p @ d @ s \<and> date_shaped d)"
proof
  assume "contains_date label"
  then obtain i where "date_shaped (take 10 (drop i label))"
    unfolding contains_date_def list_ex_iff by blast
  moreover have "label = take i label @ take 10 (drop i label) @ drop 10 (drop i label)"
    by (simp only: append_take_drop_id)
  ultimately show "\<exists>p d s. label = p @ d @ s \<and> date_shaped d" by blast
next
  assume "\<exists>p d s. label = p @ d @ s \<and> date_shaped d"
  then obtain p d s where l: "label = p @ d @ s" and d: "date_shaped d" by blast
  from d have "length d = 10" by (simp add: date_shaped_def)
  with l have "take 10 (drop (length p) label) = d" by simp
  moreover from l have "length p < Suc (length label)" by simp
  ultimately show "contains_date label"
    using d unfolding contains_date_def list_ex_iff by (intro bexI[of _ "length p"]) auto
qed

lemma parse_date_found:
  assumes "label = pre @ d @ post" and "date_shaped d"
  shows "\<exists>p s. label = p @ parse_date_from_label label @ s \<and>
           date_shaped (parse_date_from_label label) \<and>
           (\<forall>p' d' s'. label = p' @ d' @ s' \<and> date_shaped d' \<longrightarrow> length p \<le> length p')"
proof -
  from assms(2) have md: "match_here date_pattern (d @ post)"
    by (simp add: date_shaped_iff match_here_append)
  with assms(1) have "re_search date_pattern label \<noteq> None"
    using re_search_None[of date_pattern label pre "d @ post"] by auto
  then obtain m where m: "re_search date_pattern label = Some m" by auto
  from re_search_Some[OF m] obtain p t where
    pt: "label = p @ t" "match_here date_pattern t" "m = take (length date_pattern) t"
    and least: "\<forall>p' t'. label = p' @ t' \<and> match_here date_pattern t' \<longrightarrow> length p \<le> length p'"
    by blast
  have len: "length date_pattern = 10" by (simp add: date_pattern_def)
  from pt(2) have "10 \<le> length t" using match_here_length[of date_pattern t] len by simp
  with pt(3) len have lm: "length m = 10" by simp
  from pt(2,3) have "match_here date_pattern m" by (simp add: match_here_take)
  with lm have shaped: "date_shaped m" by (simp add: date_shaped_iff)
  from pt(1,3) len have dec: "label = p @ m @ drop 10 t" by simp
  have "length p \<le> length p'" if "label = p' @ d' @ s'" "date_shaped d'" for p' d' s'
  proof -
    from that(2) have "match_here date_pattern (d' @ s')"
      by (simp add: date_shaped_iff match_here_append)
    with that(1) least show ?thesis by blast
  qed
  moreover from m have "parse_date_from_label label = m"
    by (simp add: parse_date_from_label_def)
  ultimately show ?thesis using dec shaped by blast
qed

lemma parse_date_missing:
  assumes "\<not> contains_date label"
  shows "parse_date_from_label label = ''N/A''"
proof (cases "re_search date_pattern label")
  case None
  then show ?thesis by (simp add: parse_date_from_label_def)
next
  case (Some m)
  from re_search_Some[OF Some] obtain p t where
    pt: "label = p @ t" "match_here date_pattern t" "m = take (length date_pattern) t"
    by blast
  have len: "length date_pattern = 10" by (simp add: date_pattern_def)
  from pt(2) have "10 \<le> length t" using match_here_length[of date_pattern t] len by simp
  with pt(3) len have "length m = 10" by simp
  moreover from pt(2,3) have "match_here date_pattern m" by (simp add: match_here_take)
  ultimately have "date_shaped m" by (simp add: date_shaped_iff)
  moreover from pt(1,3) len have "label = p @ m @ drop 10 t" by simp
  ultimately have "contains_date label" unfolding contains_date_iff by blast
  with assms show ?thesis by simp
qed

lemma parse_date_cases:
  "(contains_date label \<and> date_shaped (parse_date_from_label label)) \<or>
   (\<not> contains_date label \<and> parse_date_from_label label = ''N/A'')"
proof (cases "contains_date label")
  case True
  then obtain p d s where "label = p @ d @ s" "date_shaped d"
    unfolding contains_date_iff by blast
  from parse_date_found[OF this] True show ?thesis by blast
next
  case False
  then show ?thesis by (simp add: parse_date_missing)
qed

lemma parse_date_sentinel_iff:
  "parse_date_from_label label = ''N/A'' \<longleftrightarrow> \<not> contains_date label"
  using parse_date_cases[of label] date_shaped_split(2)[of "parse_date_from_label label"] by auto

text \<open>The dictionary of a record, in closed form: building it never raises.\<close>

lemma sequence_row_eq:
  "sequence_row file idx (label, sequence) =
     Inr [(''sequenceLabel'', PyStr label),
          (''sequenceCharacters'', PyStr sequence),
          (''sequenceDateISO'', PyStr (parse_date_from_label label)),
          (''sequenceDateYear'', PyStr (if contains_date label then take 4 (parse_date_from_label label) else ''N/A'')),
          (''sequenceDateMonth'', PyStr (if contains_date label then take 2 (drop 5 (parse_date_from_label label)) else ''N/A'')),
          (''sequenceDateDay'', PyStr (if contains_date label then drop 8 (parse_date_from_label label) else ''N/A'')),
          (''sequenceLengthMin'', PyInt (int (length sequence))),
          (''sequenceLengthMax'', PyInt (int (length sequence))),
          (''sequenceSourcePath'',
             PyStr (if file_name file \<noteq> ''<stdin>'' then file_name file else ''standard input'')),
          (''sequenceSourceOffset'', PyInt (int idx))]"
proof (cases "contains_date label")
  case True
  with parse_date_cases[of label] have sh: "date_shaped (parse_date_from_label label)" by blast
  from date_shaped_split[OF sh] True show ?thesis
    by (simp add: sequence_row_def date_field_def getitem_def Let_def)
next
  case False
  with parse_date_cases[of label] have "parse_date_from_label label = ''N/A''" by blast
  with False show ?thesis
    by (simp add: sequence_row_def date_field_def Let_def)
qed

section \<open>The loops in closed form\<close>

lemma sequence_row_values:
  "sequence_row file idx record = Inr (zip sequence_columns (row_values file idx record))"
  by (cases "record") (simp add: sequence_row_eq sequence_columns_def row_values_def Let_def)

lemma parse_records_eq:
  "parse_records file idx records (sequences, unknown_labels) =
     Inr (sequences @ map (zip sequence_columns) (rows_of file idx records),
          unknown_labels @ filter (\<lambda>l. \<not> contains_date l) (map fst records))"
proof (induction records arbitrary: idx sequences unknown_labels)
  case Nil
  then show ?case by simp
next
  case (Cons r rest)
  show ?case
    by (simp add: sequence_row_values Cons.IH parse_date_sentinel_iff Let_def)
qed

lemma parse_files_eq:
  "parse_files files ((sequences, unknown_labels), err) =
     Inr ((sequences @ map (zip sequence_columns) (table_rows files),
           unknown_labels @ filter (\<lambda>l. \<not> contains_date l) (labels_of files)),
          err @ notices_of files)"
proof (induction files arbitrary: sequences unknown_labels err)
  case Nil
  then show ?case by (simp add: table_rows_def labels_of_def notices_of_def)
next
  case (Cons f rest)
  obtain h records where f: "f = (h, records)" by (cases f)
  show ?case
    unfolding f
    by (simp add: parse_records_eq Cons.IH table_rows_def labels_of_def notices_of_def Let_def)
qed

lemma parse_sequences_eq:
  "parse_sequences files =
     Inr ((map (zip sequence_columns) (table_rows files),
           filter (\<lambda>l. \<not> contains_date l) (labels_of files)),
          notices_of files)"
  by (simp add: parse_sequences_def parse_files_eq)

lemma rows_of_labels:
  "list_all2 (\<lambda>v r. \<exists>f i. v = row_values f i r) (rows_of file idx records) records"
  by (induction records arbitrary: idx) auto

lemma table_rows_records:
  "list_all2 (\<lambda>v r. \<exists>f i. v = row_values f i r) (table_rows files) (concat (map snd files))"
  by (induction files) (simp_all add: table_rows_def rows_of_labels list_all2_appendI)

lemma labels_of_records: "labels_of files = map fst (concat (map snd files))"
  by (simp add: labels_of_def map_concat comp_def)


section \<open>Frames and aggregations\<close>

lemma set_uniq: "set (uniq xs) = set xs"
  by (induction xs rule: uniq.induct) auto

lemma distinct_uniq: "distinct (uniq xs)"
  by (induction xs rule: uniq.induct) (auto simp: set_uniq)

lemma uniq_append_subset:
  "distinct xs \<Longrightarrow> set ys \<subseteq> set xs \<Longrightarrow> uniq (xs @ ys) = xs"
proof (induction xs arbitrary: ys)
  case Nil
  then show ?case by simp
next
  case (Cons x xs)
  from Cons.prems have "filter (\<lambda>y. y \<noteq> x) xs = xs"
    by (auto intro: filter_True)
  moreover from Cons.prems have "set (filter (\<lambda>y. y \<noteq> x) ys) \<subseteq> set xs"
    by auto
  ultimately show ?case
    using Cons.IH[of "filter (\<lambda>y. y \<noteq> x) ys"] Cons.prems by simp
qed

lemma map_of_zip_self:
  "distinct xs \<Longrightarrow> length xs = length ys \<Longrightarrow> map (map_of (zip xs ys)) xs = map Some ys"
  by (rule nth_equalityI) (simp_all add: map_of_zip_nth)

lemma DataFrame_Nil: "DataFrame [] = \<lparr>columns = [], rows = []\<rparr>"
  by (simp add: DataFrame_def)

lemma DataFrame_zip:
  assumes "vs \<noteq> []" and "\<forall>v\<in>set vs. length v = length cols" and "distinct cols"
  shows "DataFrame (map (zip cols) vs) = \<lparr>columns = cols, rows = map (map Some) vs\<rparr>"
proof -
  have fst: "map fst (zip cols v) = cols" if "v \<in> set vs" for v
    using that assms(2) by simp
  from assms(1) obtain v0 rest where vs: "vs = v0 # rest" by (cases vs) auto
  have "concat (map (map fst) (map (zip cols) vs)) = cols @ concat (map (map fst) (map (zip cols) rest))"
    using fst[of v0] by (simp add: vs)
  moreover have "set (concat (map (map fst) (map (zip cols) rest))) \<subseteq> set cols"
    using fst by (auto simp: vs dest: set_zip_leftD)
  ultimately have cols: "uniq (concat (map (map fst) (map (zip cols) vs))) = cols"
    using assms(3) by (simp add: uniq_append_subset)
  have "map (\<lambda>d. map (map_of d) cols) (map (zip cols) vs) = map (map Some) vs"
    using assms(2,3) by (simp add: map_of_zip_self)
  with cols show ?thesis by (simp add: DataFrame_def Let_def)
qed

lemma distinct_sequence_columns: "distinct sequence_columns"
  by (simp add: sequence_columns_def)

lemma length_row_values: "length (row_values f i r) = length sequence_columns"
  by (simp add: row_values_def sequence_columns_def Let_def)

lemma table_rows_length: "v \<in> set (table_rows files) \<Longrightarrow> length v = length sequence_columns"
proof -
  assume "v \<in> set (table_rows files)"
  then obtain k where k: "k < length (table_rows files)" "v = table_rows files ! k"
    by (auto simp: in_set_conv_nth)
  then obtain f i r where "v = row_values f i r"
    using list_all2_nthD[OF table_rows_records k(1)] by blast
  then show ?thesis by (simp add: length_row_values)
qed

lemma length_table_rows: "length (table_rows files) = length (concat (map snd files))"
  using table_rows_records[of files] by (rule list_all2_lengthD)

lemma DataFrame_table:
  "concat (map snd files) \<noteq> [] \<Longrightarrow>
   DataFrame (map (zip sequence_columns) (table_rows files)) =
     \<lparr>columns = sequence_columns, rows = map (map Some) (table_rows files)\<rparr>"
proof -
  assume "concat (map snd files) \<noteq> []"
  then have "length (table_rows files) \<noteq> 0"
    by (simp add: length_table_rows)
  then have "table_rows files \<noteq> []"
    by simp
  then show ?thesis
    by (intro DataFrame_zip) (auto simp: table_rows_length distinct_sequence_columns)
qed

lemma DataFrame_table_empty:
  "concat (map snd files) = [] \<Longrightarrow>
   DataFrame (map (zip sequence_columns) (table_rows files)) = \<lparr>columns = [], rows = []\<rparr>"
proof -
  assume "concat (map snd files) = []"
  then have "length (table_rows files) = 0"
    by (simp add: length_table_rows)
  then have "table_rows files = []"
    by simp
  then show ?thesis by (simp add: DataFrame_Nil)
qed

lemma length_DataFrame_rows: "length (rows (DataFrame data)) = length data"
  by (simp add: DataFrame_def Let_def)


lemma groupby_size_Inr:
  "set by \<subseteq> set (columns df) \<Longrightarrow>
   groupby_size by name df =
     Inr \<lparr>columns = by @ [name],
          rows = map (\<lambda>k. map Some k @
                    [Some (PyInt (int (length (filter (\<lambda>k'. k' = k) (group_keys by df)))))])
                    (sort (uniq (group_keys by df)))\<rparr>"
proof -
  assume "set by \<subseteq> set (columns df)"
  then have "filter (\<lambda>c. c \<notin> set (columns df)) by = []"
    by (auto simp: filter_empty_conv)
  then show ?thesis by (simp add: groupby_size_def group_keys_def Let_def)
qed

lemma count_sum_uniq:
  "(\<Sum>k\<leftarrow>sort (uniq ks). int (length (filter (\<lambda>k'. k' = k) ks))) = int (length (ks :: 'a::linorder list))"
proof -
  have d: "distinct (sort (uniq ks))" by (simp add: distinct_uniq)
  have s: "set (sort (uniq ks)) = set ks" by (simp add: set_uniq)
  have "(\<Sum>k\<leftarrow>sort (uniq ks). length (filter (\<lambda>k'. k' = k) ks)) = (\<Sum>k\<in>set ks. count_list ks k)"
    using sum_list_distinct_conv_sum_set[OF d, of "\<lambda>k. length (filter (\<lambda>k'. k' = k) ks)"]
    by (simp add: set_uniq count_list_eq_length_filter eq_commute cong: filter_cong)
  also have "\<dots> = length ks" by (simp add: sum_count_set)
  finally have n: "(\<Sum>k\<leftarrow>sort (uniq ks). length (filter (\<lambda>k'. k' = k) ks)) = length ks" .
  have "(\<Sum>k\<leftarrow>sort (uniq ks). int (length (filter (\<lambda>k'. k' = k) ks))) =
        sum_list (map int (map (\<lambda>k. length (filter (\<lambda>k'. k' = k) ks)) (sort (uniq ks))))"
    by (simp add: comp_def)
  also have "\<dots> = int (\<Sum>k\<leftarrow>sort (uniq ks). length (filter (\<lambda>k'. k' = k) ks))"
    by (rule sum_list_of_nat)
  finally show ?thesis by (simp only: n)
qed

lemma num_sequences_sum:
  "set by \<subseteq> set (columns df) \<Longrightarrow> groupby_size by name df = Inr s \<Longrightarrow>
   sum_list (num_sequences s) = int (length (group_keys by df))"
proof -
  assume "set by \<subseteq> set (columns df)" "groupby_size by name df = Inr s"
  then have "num_sequences s =
      map (\<lambda>k. int (length (filter (\<lambda>k'. k' = k) (group_keys by df)))) (sort (uniq (group_keys by df)))"
    by (auto simp: groupby_size_Inr num_sequences_def)
  then show ?thesis using count_sum_uniq[of "group_keys by df"] by simp
qed

lemma value_at_defined:
  assumes "distinct cols" and "length v = length cols" and "c \<in> set cols"
  shows "value_at cols (map Some v) c \<noteq> None"
proof -
  from assms(3) obtain i where i: "i < length cols" "c = cols ! i"
    by (auto simp: in_set_conv_nth)
  with assms(1,2) have "map_of (zip cols (map Some v)) c = Some (Some (v ! i))"
    using map_of_zip_nth[of cols "map Some v" i] by simp
  then show ?thesis by (simp add: value_at_def)
qed

lemma those_defined: "\<forall>x\<in>set xs. x \<noteq> None \<Longrightarrow> those xs \<noteq> None"
  by (induction xs) (auto split: option.splits)

lemma group_keys_complete:
  assumes "distinct (columns df)" and "set by \<subseteq> set (columns df)"
    and "\<forall>row\<in>set (rows df). \<exists>v. row = map Some v \<and> length v = length (columns df)"
  shows "length (group_keys by df) = length (rows df)"
proof -
  have "those (map (value_at (columns df) row) by) \<noteq> None" if "row \<in> set (rows df)" for row
  proof -
    from that assms(3) obtain v where v: "row = map Some v" "length v = length (columns df)"
      by blast
    have "x \<noteq> None" if "x \<in> set (map (value_at (columns df) (map Some v)) by)" for x
    proof -
      from that obtain c where c: "c \<in> set by" "x = value_at (columns df) (map Some v) c"
        by auto
      from c(1) assms(2) have "c \<in> set (columns df)" by blast
      from value_at_defined[OF assms(1) v(2) this] c(2) show ?thesis by simp
    qed
    then show ?thesis
      unfolding v(1) by (intro those_defined) blast
  qed
  then have "filter (\<lambda>row. those (map (value_at (columns df) row) by) \<noteq> None) (rows df) = rows df"
    by (intro filter_True) blast
  then show ?thesis
    by (simp add: group_keys_def map_filter_def)
qed

text \<open>
  On a table with at least one record each of the three aggregations is produced, and
  its counts add up to the number of records: no record is dropped, the ones without a
  date are counted under their own key.
\<close>

lemma aggregation_counts_sum:
  assumes "parse_sequences files = Inr ((sequences, unknown_labels), notices)"
    and "sequences \<noteq> []"
    and "(summary_name, group_columns) \<in> set summary_functions"
  shows "\<exists>s. groupby_size group_columns ''NumSequences'' (DataFrame sequences) = Inr s \<and>
             sum_list (num_sequences s) = int (length sequences)"
proof -
  from assms(1) have seqs: "sequences = map (zip sequence_columns) (table_rows files)"
    by (simp add: parse_sequences_eq)
  with assms(2) have "table_rows files \<noteq> []" by simp
  then have "length (table_rows files) \<noteq> 0" by simp
  then have "length (concat (map snd files)) \<noteq> 0"
    using length_table_rows[of files] by linarith
  then have ne: "concat (map snd files) \<noteq> []" by (metis list.size(3))
  let ?df = "DataFrame sequences"
  have df: "?df = \<lparr>columns = sequence_columns, rows = map (map Some) (table_rows files)\<rparr>"
    unfolding seqs by (rule DataFrame_table[OF ne])
  have sub: "set group_columns \<subseteq> set (columns ?df)"
    using assms(3) by (auto simp: df summary_functions_def sequence_columns_def)
  have "length (group_keys group_columns ?df) = length (rows ?df)"
    by (rule group_keys_complete[OF _ sub])
       (auto simp: df distinct_sequence_columns table_rows_length)
  moreover have "length (rows ?df) = length sequences"
    by (simp add: length_DataFrame_rows)
  ultimately show ?thesis
    using groupby_size_Inr[OF sub, of "''NumSequences''"]
      num_sequences_sum[OF sub, of "''NumSequences''"] by simp
qed

section \<open>The three ways a run can go\<close>

lemma close_inputs_id: "close_inputs input_files hs = hs"
  by (induction input_files) auto

lemma write_table_choice:
  "fmt \<in> set choices \<Longrightarrow>
   \<exists>x. write_table fmt d df = [x] \<and> dest x = d \<and> rendering x = fmt \<and> table x = df"
  by (auto simp: choices_def write_table_def)

lemma parse_args_Inr:
  assumes "parse_args av = Inr args"
  shows "\<not> invalid_choice (arg_output_format av)" "\<not> invalid_choice (arg_summarize_format av)"
    "output_format args = selected_format av" "output_format args \<in> set choices"
    "summarize args = arg_summarize av" "summarize_format args = arg_summarize_format av"
    "\<forall>f. summarize_format args = Some f \<longrightarrow> f \<in> set choices"
    "output_filepath args \<noteq> Path f"
proof -
  from assms show v: "\<not> invalid_choice (arg_output_format av)"
    "\<not> invalid_choice (arg_summarize_format av)"
    by (simp_all add: parse_args_def split: if_splits)
  with assms have a: "args =
    \<lparr>paths = (if arg_paths av = [] then [''-''] else arg_paths av),
     output_filepath =
       (case arg_output_filepath av of
          None \<Rightarrow> Stdout
        | Some p \<Rightarrow> if p = ''-'' then Stdout else OutFile p),
     output_format = selected_format av,
     summarize = arg_summarize av,
     summarize_format = arg_summarize_format av\<rparr>"
    by (simp add: parse_args_def selected_format_def)
  show "output_format args = selected_format av" "summarize args = arg_summarize av"
    "summarize_format args = arg_summarize_format av"
    by (simp_all add: a)
  from v(1) show "output_format args \<in> set choices"
    by (cases "arg_output_format av") (simp_all add: a selected_format_def invalid_choice_def choices_def)
  from v(2) show "\<forall>f. summarize_format args = Some f \<longrightarrow> f \<in> set choices"
    by (auto simp: a invalid_choice_def)
  show "output_filepath args \<noteq> Path f"
    by (cases "arg_output_filepath av") (simp_all add: a)
qed

lemma primary_write:
  assumes "parse_args av = Inr args"
  shows "\<exists>x. write_table (output_format args) (output_filepath args) df = [x] \<and>
           \<not> is_summary x \<and> rendering x = selected_format av \<and> table x = df"
proof -
  from write_table_choice[OF parse_args_Inr(4)[OF assms], of "output_filepath args" df]
  obtain x where x: "write_table (output_format args) (output_filepath args) df = [x]"
    "dest x = output_filepath args" "rendering x = output_format args" "table x = df"
    by blast
  from parse_args_Inr(8)[OF assms] x(2) have "\<not> is_summary x"
    by (cases "output_filepath args") (auto simp: is_summary_def)
  with x parse_args_Inr(3)[OF assms] show ?thesis by simp
qed

lemma main_cases [case_names usage open_failed ran]:
  obtains
    (usage) "invalid_choice (arg_output_format av) \<or> invalid_choice (arg_summarize_format av)"
      "main w av = \<lparr>status = Some (SystemExit 2), open_handles = [], outputs = [],
                    stderr = [UsageError]\<rparr>"
  | (open_failed) args input_files e where
      "parse_args av = Inr args"
      "open_inputs w False (paths args) [] = (input_files, Some e)"
      "main w av = \<lparr>status = Some e, open_handles = opened input_files, outputs = [],
                    stderr = [Traceback e]\<rparr>"
  | (ran) args input_files new raised where
      "parse_args av = Inr args"
      "open_inputs w False (paths args) [] = (input_files, None)"
      "summarize_step (str_format w) args
         (DataFrame (map (zip sequence_columns) (table_rows input_files))) = (new, raised)"
      "main w av =
         \<lparr>status = raised, open_handles = opened input_files,
          outputs = write_table (output_format args) (output_filepath args)
                      (DataFrame (map (zip sequence_columns) (table_rows input_files))) @ new,
          stderr = notices_of input_files @
            (case raised of
               Some e \<Rightarrow> [Traceback e]
             | None \<Rightarrow> report (map (zip sequence_columns) (table_rows input_files))
                         (DataFrame (map (zip sequence_columns) (table_rows input_files)))
                         (filter (\<lambda>l. \<not> contains_date l) (labels_of input_files)))\<rparr>"
proof (cases "parse_args av")
  case (Inl e)
  then have inv: "invalid_choice (arg_output_format av) \<or> invalid_choice (arg_summarize_format av)"
    by (auto simp: parse_args_def split: if_splits)
  with Inl have "e = SystemExit 2" by (simp add: parse_args_def)
  with Inl inv show ?thesis by (intro usage) (simp_all add: main_def)
next
  case (Inr args)
  obtain input_files oe where o: "open_inputs w False (paths args) [] = (input_files, oe)"
    by (cases "open_inputs w False (paths args) []")
  show ?thesis
  proof (cases oe)
    case (Some e)
    with Inr o show ?thesis by (intro open_failed[of args input_files e]) (simp_all add: main_def)
  next
    case None
    let ?df = "DataFrame (map (zip sequence_columns) (table_rows input_files))"
    obtain new raised where st: "summarize_step (str_format w) args ?df = (new, raised)"
      by (cases "summarize_step (str_format w) args ?df")
    show ?thesis
    proof (rule ran[OF Inr _ st])
      from o None show "open_inputs w False (paths args) [] = (input_files, None)" by simp
      from Inr o None st show "main w av =
         \<lparr>status = raised, open_handles = opened input_files,
          outputs = write_table (output_format args) (output_filepath args) ?df @ new,
          stderr = notices_of input_files @
            (case raised of
               Some e \<Rightarrow> [Traceback e]
             | None \<Rightarrow> report (map (zip sequence_columns) (table_rows input_files)) ?df
                         (filter (\<lambda>l. \<not> contains_date l) (labels_of input_files)))\<rparr>"
        by (cases raised) (simp_all add: main_def parse_sequences_eq close_inputs_id Let_def)
    qed
  qed
qed

text \<open>
  What the loop of \<^verbatim>\<open>output_summaries\<close> adds to the calls made so far: summaries only,
  each the rendering asked for of one aggregation; one per granularity if nothing was
  raised, and then, for a prefix without braces, under the three expected names.
\<close>

lemma summaries_loop_new:
  assumes "fmt \<in> set choices"
  shows "summaries_loop sf df p fmt fs out = (out', raised) \<Longrightarrow>
         \<exists>new. out' = out @ new \<and>
           (\<forall>x\<in>set new. is_summary x \<and> rendering x = fmt \<and>
              (\<exists>by. groupby_size by ''NumSequences'' df = Inr (table x))) \<and>
           (raised = None \<longrightarrow>
              length new = length fs \<and>
              (CHR ''{'' \<notin> set p \<and> CHR ''}'' \<notin> set p \<longrightarrow>
                 map dest new = map (\<lambda>f. Path (p @ ''.'' @ fst f)) fs))"
proof (induction fs arbitrary: out)
  case Nil
  then show ?case by simp
next
  case (Cons f rest)
  obtain summary_name group_columns where f: "f = (summary_name, group_columns)" by (cases f)
  show ?case
  proof (cases "groupby_size group_columns ''NumSequences'' df")
    case (Inl e)
    with Cons.prems f show ?thesis by auto
  next
    case (Inr summary_df)
    show ?thesis
    proof (cases "format_filename sf p summary_name")
      case (Inl e)
      with Cons.prems f Inr show ?thesis by auto
    next
      case fn: (Inr filename)
      from write_table_choice[OF assms, of "Path filename" summary_df] obtain x where
        x: "write_table fmt (Path filename) summary_df = [x]" "dest x = Path filename"
           "rendering x = fmt" "table x = summary_df"
        by blast
      from x(2) have sx: "is_summary x" by (simp add: is_summary_def)
      from Inr x(4) have tx: "\<exists>by. groupby_size by ''NumSequences'' df = Inr (table x)" by auto
      from fn have nm: "CHR ''{'' \<notin> set p \<and> CHR ''}'' \<notin> set p \<longrightarrow>
                          dest x = Path (p @ ''.'' @ fst f)"
        by (auto simp: format_filename_def x(2) f)
      from Cons.prems f Inr fn x(1) have
        "summaries_loop sf df p fmt rest (out @ [x]) = (out', raised)" by simp
      from Cons.IH[OF this] obtain new where
        new: "out' = (out @ [x]) @ new"
          "\<forall>x\<in>set new. is_summary x \<and> rendering x = fmt \<and>
             (\<exists>by. groupby_size by ''NumSequences'' df = Inr (table x))"
          "raised = None \<longrightarrow>
             length new = length rest \<and>
             (CHR ''{'' \<notin> set p \<and> CHR ''}'' \<notin> set p \<longrightarrow>
                map dest new = map (\<lambda>f. Path (p @ ''.'' @ fst f)) rest)"
        by blast
      from new(1) have "out' = out @ (x # new)" by simp
      moreover from new(2) sx x(3) tx have
        "\<forall>y\<in>set (x # new). is_summary y \<and> rendering y = fmt \<and>
           (\<exists>by. groupby_size by ''NumSequences'' df = Inr (table y))"
        by simp
      moreover from new(3) nm have
        "raised = None \<longrightarrow>
           length (x # new) = length (f # rest) \<and>
           (CHR ''{'' \<notin> set p \<and> CHR ''}'' \<notin> set p \<longrightarrow>
              map dest (x # new) = map (\<lambda>f. Path (p @ ''.'' @ fst f)) (f # rest))"
        by simp
      ultimately show ?thesis by blast
    qed
  qed
qed

text \<open>The summary step of a run whose command line was accepted.\<close>

lemma summarize_step_eq:
  assumes "parse_args av = Inr args"
  shows "selected_summary_format av \<in> set choices"
    and "summarize_step sf args df =
           (case arg_summarize av of
              None \<Rightarrow> ([], None)
            | Some p \<Rightarrow>
                if p = [] then ([], None)
                else summaries_loop sf df p (selected_summary_format av) summary_functions [])"
proof -
  note a = parse_args_Inr[OF assms]
  show ch: "selected_summary_format av \<in> set choices"
    using a(3,4,6,7) by (auto simp: selected_summary_format_def split: option.splits)
  have "(case summarize_format args of None \<Rightarrow> output_format args
         | Some f \<Rightarrow> if f = [] then output_format args else f) = selected_summary_format av"
    using a(3,6,7)
    by (auto simp: selected_summary_format_def choices_def split: option.splits)
  then show "summarize_step sf args df =
           (case arg_summarize av of
              None \<Rightarrow> ([], None)
            | Some p \<Rightarrow>
                if p = [] then ([], None)
                else summaries_loop sf df p (selected_summary_format av) summary_functions [])"
    by (simp add: summarize_step_def output_summaries_def a(5) split: option.splits)
qed

lemma summary_writes:
  assumes "parse_args av = Inr args" and "summarize_step sf args df = (new, raised)"
  shows "\<forall>x\<in>set new. is_summary x \<and> rendering x = selected_summary_format av \<and>
           (\<exists>by. groupby_size by ''NumSequences'' df = Inr (table x))"
    and "raised = None \<Longrightarrow>
           length new = (case arg_summarize av of None \<Rightarrow> 0 | Some p \<Rightarrow> if p = [] then 0 else 3)"
    and "raised = None \<Longrightarrow> arg_summarize av = Some p \<Longrightarrow> p \<noteq> [] \<Longrightarrow>
         CHR ''{'' \<notin> set p \<Longrightarrow> CHR ''}'' \<notin> set p \<Longrightarrow>
           map dest new = [Path (p @ ''.yearly''), Path (p @ ''.monthly''), Path (p @ ''.daily'')]"
proof -
  note e1 = summarize_step_eq(1)[OF assms(1)]
  note e2 = summarize_step_eq(2)[OF assms(1), of sf df]
  have loop: "\<exists>q. arg_summarize av = Some q \<and> q \<noteq> [] \<and>
      summaries_loop sf df q (selected_summary_format av) summary_functions [] = (new, raised)"
    if "new \<noteq> [] \<or> (\<exists>q. arg_summarize av = Some q \<and> q \<noteq> [])"
    using that assms(2) e2 by (auto split: option.splits if_splits)
  show "\<forall>x\<in>set new. is_summary x \<and> rendering x = selected_summary_format av \<and>
           (\<exists>by. groupby_size by ''NumSequences'' df = Inr (table x))"
  proof (cases "new = []")
    case True
    then show ?thesis by simp
  next
    case False
    with loop obtain q where
      "summaries_loop sf df q (selected_summary_format av) summary_functions [] = (new, raised)"
      by blast
    from summaries_loop_new[OF e1 this] show ?thesis by simp
  qed
  show "length new = (case arg_summarize av of None \<Rightarrow> 0 | Some p \<Rightarrow> if p = [] then 0 else 3)"
    if r: "raised = None"
  proof (cases "\<exists>q. arg_summarize av = Some q \<and> q \<noteq> []")
    case True
    with loop obtain q where q: "arg_summarize av = Some q" "q \<noteq> []"
      "summaries_loop sf df q (selected_summary_format av) summary_functions [] = (new, raised)"
      by blast
    from summaries_loop_new[OF e1 q(3)] r q(1,2) show ?thesis
      by (simp add: summary_functions_def)
  next
    case False
    with assms(2) e2 show ?thesis by (auto split: option.splits)
  qed
  show "map dest new = [Path (p @ ''.yearly''), Path (p @ ''.monthly''), Path (p @ ''.daily'')]"
    if r: "raised = None" and p: "arg_summarize av = Some p" "p \<noteq> []"
      and b: "CHR ''{'' \<notin> set p" "CHR ''}'' \<notin> set p"
  proof -
    from loop p obtain q where q: "arg_summarize av = Some q"
      "summaries_loop sf df q (selected_summary_format av) summary_functions [] = (new, raised)"
      by blast
    with p(1) have "q = p" by simp
    with summaries_loop_new[OF e1 q(2)] r b show ?thesis
      by (simp add: summary_functions_def)
  qed
qed

lemma filter_summaries:
  "\<not> is_summary x \<Longrightarrow> \<forall>y\<in>set new. is_summary y \<Longrightarrow>
   filter is_summary (x # new) = new \<and> filter (\<lambda>y. \<not> is_summary y) (x # new) = [x]"
  by (simp add: filter_empty_conv cong: filter_cong)


text \<open>No exit path releases a handle: whatever \<^verbatim>\<open>open\<close> returned is still open at the end.\<close>

lemma handles_stay_open:
  assumes "parse_args av = Inr args"
    and "open_inputs w False (paths args) [] = (input_files, raised)"
  shows "open_handles (main w av) = opened input_files"
proof (cases rule: main_cases[of av w])
  case usage
  with assms(1) show ?thesis by (simp add: parse_args_def)
next
  case (open_failed args' input_files' e)
  with assms show ?thesis by simp
next
  case (ran args' input_files' new raised')
  with assms show ?thesis by simp
qed

section \<open>The closing report\<close>

lemma notices_no_totals:
  "total_read (notices_of fs) = []" "total_parsed (notices_of fs) = []"
  "total_unknown (notices_of fs) = []" "unknown_listed (notices_of fs) = []"
  by (induction fs)
     (simp_all add: notices_of_def total_read_def total_parsed_def total_unknown_def
        unknown_listed_def)

lemma report_totals:
  "total_read (report sequences df unknown) = [int (length sequences)]"
  "total_parsed (report sequences df unknown) = [int (length (rows df)) - int (length unknown)]"
  "total_unknown (report sequences df unknown) = [int (length unknown)]"
  "unknown_listed (report sequences df unknown) = unknown"
proof -
  have m: "total_read (map UnknownLabel ls) = []" "total_parsed (map UnknownLabel ls) = []"
    "total_unknown (map UnknownLabel ls) = []" "unknown_listed (map UnknownLabel ls) = ls"
    for ls
    by (induction ls)
       (simp_all add: total_read_def total_parsed_def total_unknown_def unknown_listed_def)
  have a: "total_read (x # xs) = (case x of TotalRead n \<Rightarrow> [n] | _ \<Rightarrow> []) @ total_read xs"
    "total_parsed (x # xs) = (case x of TotalParsed n \<Rightarrow> [n] | _ \<Rightarrow> []) @ total_parsed xs"
    "total_unknown (x # xs) = (case x of TotalUnknown n \<Rightarrow> [n] | _ \<Rightarrow> []) @ total_unknown xs"
    "unknown_listed (x # xs) = (case x of UnknownLabel n \<Rightarrow> [n] | _ \<Rightarrow> []) @ unknown_listed xs"
    for x xs
    by (simp_all add: total_read_def total_parsed_def total_unknown_def unknown_listed_def)
  have e: "total_read [] = []" "total_parsed [] = []" "total_unknown [] = []" "unknown_listed [] = []"
    by (simp_all add: total_read_def total_parsed_def total_unknown_def unknown_listed_def)
  show "total_read (report sequences df unknown) = [int (length sequences)]"
    "total_parsed (report sequences df unknown) = [int (length (rows df)) - int (length unknown)]"
    "total_unknown (report sequences df unknown) = [int (length unknown)]"
    "unknown_listed (report sequences df unknown) = unknown"
    by (simp_all add: report_def a m e)
qed

lemma totals_append:
  "total_read (xs @ ys) = total_read xs @ total_read ys"
  "total_parsed (xs @ ys) = total_parsed xs @ total_parsed ys"
  "total_unknown (xs @ ys) = total_unknown xs @ total_unknown ys"
  "unknown_listed (xs @ ys) = unknown_listed xs @ unknown_listed ys"
  by (simp_all add: total_read_def total_parsed_def total_unknown_def unknown_listed_def)

lemma filter_length_all2:
  "list_all2 (\<lambda>x y. P x \<longleftrightarrow> Q y) xs ys \<Longrightarrow> length (filter P xs) = length (filter Q ys)"
  by (induction rule: list_all2_induct) auto

lemma value_at_nth:
  assumes "distinct cols" and "length v = length cols" and "i < length cols"
  shows "value_at cols (map Some v) (cols ! i) = Some (v ! i)"
proof -
  from assms have "map_of (zip cols (map Some v)) (cols ! i) = Some (Some (v ! i))"
    using map_of_zip_nth[of cols "map Some v" i] by simp
  then show ?thesis by (simp add: value_at_def)
qed

lemma row_date_cell:
  "value_at sequence_columns (map Some (row_values f i r)) ''sequenceDateISO'' =
     Some (PyStr (parse_date_from_label (fst r)))"
proof -
  have "value_at sequence_columns (map Some (row_values f i r)) (sequence_columns ! 2) =
          Some (row_values f i r ! 2)"
    by (rule value_at_nth)
       (simp_all add: distinct_sequence_columns length_row_values, simp add: sequence_columns_def)
  then show ?thesis by (simp add: sequence_columns_def row_values_def Let_def)
qed

text \<open>In the frame of a run the rows that hold the sentinel are as many as the unknown labels.\<close>

lemma undated_rows:
  "length (filter (\<lambda>row. value_at (columns (DataFrame (map (zip sequence_columns) (table_rows files))))
                           row ''sequenceDateISO'' = Some (PyStr ''N/A''))
             (rows (DataFrame (map (zip sequence_columns) (table_rows files))))) =
   length (filter (\<lambda>l. \<not> contains_date l) (labels_of files))"
proof (cases "concat (map snd files) = []")
  case True
  then have "labels_of files = []" by (simp add: labels_of_records)
  with True show ?thesis by (simp add: DataFrame_table_empty)
next
  case False
  have rel: "list_all2 (\<lambda>row r. value_at sequence_columns row ''sequenceDateISO'' = Some (PyStr ''N/A'')
                          \<longleftrightarrow> \<not> contains_date (fst r))
               (map (map Some) (table_rows files)) (concat (map snd files))"
    unfolding list_all2_map1
    by (rule list_all2_mono[OF table_rows_records])
       (auto simp: row_date_cell parse_date_sentinel_iff)
  have "length (filter (\<lambda>row. value_at sequence_columns row ''sequenceDateISO'' = Some (PyStr ''N/A''))
                  (map (map Some) (table_rows files))) =
        length (filter (\<lambda>r. \<not> contains_date (fst r)) (concat (map snd files)))"
    by (rule filter_length_all2[OF rel])
  also have "\<dots> = length (filter (\<lambda>l. \<not> contains_date l) (labels_of files))"
    by (simp add: labels_of_records filter_map comp_def)
  finally show ?thesis
    by (simp add: DataFrame_table[OF False])
qed

section \<open>What the outputs depend on, and their order\<close>





section \<open>The claims\<close>






text \<open>
  Claim C3 says that on every record table each of the three aggregations partitions
  the records. On a table with at least one record that is so
  (\<open>aggregation_counts_sum\<close> above). On the table of zero records it is not: the frame
  built from an empty list has no columns, and each of the three \<^verbatim>\<open>groupby\<close> calls
  raises \<^verbatim>\<open>KeyError\<close> instead of giving an empty list of buckets.
\<close>

theorem C3_empty_table_raises:
  "parse_sequences [(Stdin, [])] = Inr (([], []), [ReadingStdin]) \<and>
   groupby_size [''sequenceDateYear''] ''NumSequences'' (DataFrame []) =
     Inl (KeyError ''sequenceDateYear'') \<and>
   groupby_size [''sequenceDateYear'', ''sequenceDateMonth''] ''NumSequences'' (DataFrame []) =
     Inl (KeyError ''sequenceDateYear'') \<and>
   groupby_size [''sequenceDateYear'', ''sequenceDateMonth'', ''sequenceDateDay'']
       ''NumSequences'' (DataFrame []) =
     Inl (KeyError ''sequenceDateYear'')"
  by (simp add: parse_sequences_def groupby_size_def DataFrame_def)

text \<open>
  Claim C4 says that on an empty input the three summary files are still written, with
  no data rows. The run on an empty standard input with the prefix \<^verbatim>\<open>out\<close> writes
  the primary table with no rows and then ends in the \<^verbatim>\<open>KeyError\<close> of the first
  \<^verbatim>\<open>groupby\<close>: no summary file is written.
\<close>

theorem C4_empty_input_summaries_fail:
  "main \<lparr>stdin = [], disk = (\<lambda>p. None), str_format = (\<lambda>t a. Inl IndexError)\<rparr>
        \<lparr>arg_paths = [], arg_output_filepath = None, arg_output_format = None,
         arg_summarize = Some ''out'', arg_summarize_format = None\<rparr> =
     \<lparr>status = Some (KeyError ''sequenceDateYear''),
      open_handles = [],
      outputs = [ToJson Stdout \<lparr>columns = [], rows = []\<rparr>],
      stderr = [ReadingStdin, Traceback (KeyError ''sequenceDateYear'')]\<rparr>"
  by (simp add: main_def parse_args_def invalid_choice_def parse_sequences_def opened_def
      DataFrame_def write_table_def summarize_step_def output_summaries_def summary_functions_def groupby_size_def)



text \<open>
  Claim C6: when a summary prefix is given and \<^verbatim>\<open>--summarize-format\<close> is not, every
  summary that the run writes is rendered in the format of \<^verbatim>\<open>--output-format\<close>
  (\<^verbatim>\<open>json\<close> when that is not given either). A run that ends normally with a
  non-empty prefix writes exactly three of them, and for a prefix without braces they
  go to the prefix followed by \<^verbatim>\<open>.yearly\<close>, \<^verbatim>\<open>.monthly\<close> and \<^verbatim>\<open>.daily\<close>, in
  that order.
\<close>

theorem C6_summary_format_default:
  assumes "arg_summarize av = Some summarize_prefix" and "arg_summarize_format av = None"
  shows "(\<forall>x\<in>set (outputs (main w av)). is_summary x \<longrightarrow> rendering x = selected_format av) \<and>
         (status (main w av) = None \<and> summarize_prefix \<noteq> [] \<longrightarrow>
            length (filter is_summary (outputs (main w av))) = 3 \<and>
            (CHR ''{'' \<notin> set summarize_prefix \<and> CHR ''}'' \<notin> set summarize_prefix \<longrightarrow>
               map dest (filter is_summary (outputs (main w av))) =
                 [Path (summarize_prefix @ ''.yearly''), Path (summarize_prefix @ ''.monthly''),
                  Path (summarize_prefix @ ''.daily'')]))"
proof (cases rule: main_cases[of av w])
  case usage
  then show ?thesis by simp
next
  case (open_failed args input_files e)
  then show ?thesis by simp
next
  case (ran args input_files new raised)
  let ?df = "DataFrame (map (zip sequence_columns) (table_rows input_files))"
  from primary_write[OF ran(1), of ?df] obtain x where
    x: "write_table (output_format args) (output_filepath args) ?df = [x]" "\<not> is_summary x"
    by blast
  note n = summary_writes[OF ran(1) ran(3)]
  have sf: "selected_summary_format av = selected_format av"
    by (simp add: selected_summary_format_def assms(2))
  have out: "outputs (main w av) = x # new" "status (main w av) = raised"
    by (simp_all add: ran(4) x(1))
  from filter_summaries[OF x(2), of new] n(1) have f: "filter is_summary (x # new) = new"
    by blast
  have one: "\<forall>y\<in>set (x # new). is_summary y \<longrightarrow> rendering y = selected_format av"
    using x(2) n(1) sf by simp
  have two: "length new = 3" if "raised = None" "summarize_prefix \<noteq> []"
    using n(2)[OF that(1)] that(2) assms(1) by simp
  have three: "map dest new =
      [Path (summarize_prefix @ ''.yearly''), Path (summarize_prefix @ ''.monthly''),
       Path (summarize_prefix @ ''.daily'')]"
    if "raised = None" "summarize_prefix \<noteq> []"
      "CHR ''{'' \<notin> set summarize_prefix" "CHR ''}'' \<notin> set summarize_prefix"
    using summary_writes(3)[OF ran(1) ran(3) that(1) assms(1) that(2,3,4)] .
  from one two three show ?thesis
    unfolding out f by blast
qed

theorem C6_summary_format_default_witness:
  "arg_summarize (scenario_argv (Some ''tsv'') None) = Some ''out'' \<and>
   arg_summarize_format (scenario_argv (Some ''tsv'') None) = None \<and>
   status (main scenario_world (scenario_argv (Some ''tsv'') None)) = None \<and>
   map (\<lambda>x. (dest x, rendering x))
       (filter is_summary (outputs (main scenario_world (scenario_argv (Some ''tsv'') None)))) =
     [(Path ''out.yearly'', ''tsv''), (Path ''out.monthly'', ''tsv''), (Path ''out.daily'', ''tsv'')]"
proof -
  have a: "arg_summarize (scenario_argv (Some ''tsv'') None) = Some ''out''"
    "arg_summarize_format (scenario_argv (Some ''tsv'') None) = None"
    by (simp_all add: scenario_argv_def)
  have b: "status (main scenario_world (scenario_argv (Some ''tsv'') None)) = None"
    by code_simp
  have c: "map (\<lambda>x. (dest x, rendering x))
       (filter is_summary (outputs (main scenario_world (scenario_argv (Some ''tsv'') None)))) =
     [(Path ''out.yearly'', ''tsv''), (Path ''out.monthly'', ''tsv''), (Path ''out.daily'', ''tsv'')]"
    by code_simp
  from C6_summary_format_default[OF a, of scenario_world] a b c show ?thesis by simp
qed



text \<open>
  Claim C8 says that every input handle opened is released at the end of the run. The
  run on the one file \<^verbatim>\<open>a.fasta\<close> ends normally with the handle of that file still
  open: the closing loop names \<^verbatim>\<open>file.close\<close> and never calls it.
\<close>

theorem C8_input_left_open:
  "main \<lparr>stdin = [], disk = (\<lambda>p. if p = ''a.fasta'' then Some [(''x_2020-01-01'', ''A'')] else None),
         str_format = (\<lambda>t a. Inl IndexError)\<rparr>
        \<lparr>arg_paths = [''a.fasta''], arg_output_filepath = None, arg_output_format = None,
         arg_summarize = None, arg_summarize_format = None\<rparr> =
     \<lparr>status = None,
      open_handles = [Named ''a.fasta''],
      outputs = [ToJson Stdout
         \<lparr>columns = sequence_columns,
          rows = [[Some (PyStr ''x_2020-01-01''), Some (PyStr ''A''), Some (PyStr ''2020-01-01''),
                   Some (PyStr ''2020''), Some (PyStr ''01''), Some (PyStr ''01''),
                   Some (PyInt 1), Some (PyInt 1), Some (PyStr ''a.fasta''), Some (PyInt 0)]]\<rparr>],
      stderr = [TotalRead 1, TotalParsed 1, TotalUnknown 0]\<rparr>"
proof -
  have ev: "parse_date_from_label ''x_2020-01-01'' = ''2020-01-01''"
    by (simp add: parse_date_from_label_def date_pattern_def is_digit_def)
  show ?thesis
    by (simp add: main_def parse_args_def invalid_choice_def parse_sequences_def opened_def
        sequence_row_def date_field_def getitem_def ev Let_def
        DataFrame_def write_table_def summarize_step_def report_def sequence_columns_def)
qed

text \<open>
  Claim C9: the search is not anchored to token boundaries. In the label
  \<^verbatim>\<open>A12345-67-89\<close> the pattern occurs inside a longer run of digits, and the match
  \<^verbatim>\<open>2345-67-89\<close> is cut from inside that run; the result is not the sentinel.
\<close>

theorem C9_unanchored_match:
  "parse_date_from_label ''A12345-67-89'' = ''2345-67-89'' \<and>
   length (parse_date_from_label ''A12345-67-89'') = 10 \<and>
   parse_date_from_label ''A12345-67-89'' \<noteq> ''N/A''"
  by (simp add: parse_date_from_label_def date_pattern_def is_digit_def)

text \<open>
  Claim C10: a run that ends normally reports three totals with
  read = parsed properly + unknown. The unknown total is the number of labels listed
  as unknown; and against the primary table, read is its number of rows, unknown the
  number of rows whose \<^verbatim>\<open>sequenceDateISO\<close> is the sentinel and parsed properly the
  number of rows where it is not: every record is in exactly one of the two classes.
\<close>

theorem C10_report_totals:
  assumes "status (main w av) = None"
  shows "\<exists>n p u x rest.
           total_read (stderr (main w av)) = [n] \<and>
           total_parsed (stderr (main w av)) = [p] \<and>
           total_unknown (stderr (main w av)) = [u] \<and>
           n = p + u \<and>
           u = int (length (unknown_listed (stderr (main w av)))) \<and>
           outputs (main w av) = x # rest \<and> \<not> is_summary x \<and>
           n = int (length (rows (table x))) \<and>
           u = int (length (filter (\<lambda>row. value_at (columns (table x)) row ''sequenceDateISO'' =
                                           Some (PyStr ''N/A'')) (rows (table x)))) \<and>
           p = int (length (filter (\<lambda>row. value_at (columns (table x)) row ''sequenceDateISO'' \<noteq>
                                           Some (PyStr ''N/A'')) (rows (table x))))"
proof (cases rule: main_cases[of av w])
  case usage
  with assms show ?thesis by simp
next
  case (open_failed args input_files e)
  with assms show ?thesis by simp
next
  case (ran args input_files new raised)
  let ?seqs = "map (zip sequence_columns) (table_rows input_files)"
  let ?df = "DataFrame ?seqs"
  let ?unknown = "filter (\<lambda>l. \<not> contains_date l) (labels_of input_files)"
  let ?undated = "\<lambda>row. value_at (columns ?df) row ''sequenceDateISO'' = Some (PyStr ''N/A'')"
  from assms ran(4) have raised: "raised = None" by simp
  from primary_write[OF ran(1), of ?df] obtain x where
    x: "write_table (output_format args) (output_filepath args) ?df = [x]" "\<not> is_summary x"
       "table x = ?df"
    by blast
  have err: "stderr (main w av) = notices_of input_files @ report ?seqs ?df ?unknown"
    by (simp add: ran(4) raised)
  have out: "outputs (main w av) = x # new"
    by (simp add: ran(4) x(1))
  have len: "length (rows ?df) = length ?seqs"
    by (rule length_DataFrame_rows)
  have u: "length (filter ?undated (rows ?df)) = length ?unknown"
    by (rule undated_rows)
  have split: "length (filter ?undated (rows ?df)) + length (filter (\<lambda>row. \<not> ?undated row) (rows ?df)) =
               length (rows ?df)"
    by (rule sum_length_filter_compl)
  have p: "int (length (rows ?df)) - int (length ?unknown) =
           int (length (filter (\<lambda>row. \<not> ?undated row) (rows ?df)))"
    using u split by linarith
  show ?thesis
  proof (intro exI conjI)
    show "total_read (stderr (main w av)) = [int (length ?seqs)]"
      by (simp add: err totals_append notices_no_totals report_totals)
    show "total_parsed (stderr (main w av)) = [int (length (rows ?df)) - int (length ?unknown)]"
      by (simp add: err totals_append notices_no_totals report_totals)
    show "total_unknown (stderr (main w av)) = [int (length ?unknown)]"
      by (simp add: err totals_append notices_no_totals report_totals)
    show "int (length ?seqs) = int (length (rows ?df)) - int (length ?unknown) + int (length ?unknown)"
      using len by simp
    show "int (length ?unknown) = int (length (unknown_listed (stderr (main w av))))"
      by (simp add: err totals_append notices_no_totals report_totals)
    show "outputs (main w av) = x # new" by (rule out)
    show "\<not> is_summary x" by (rule x(2))
    show "int (length ?seqs) = int (length (rows (table x)))"
      using len by (simp add: x(3))
    show "int (length ?unknown) = int (length (filter (\<lambda>row. value_at (columns (table x)) row
              ''sequenceDateISO'' = Some (PyStr ''N/A'')) (rows (table x))))"
      unfolding x(3) using u by simp
    show "int (length (rows ?df)) - int (length ?unknown) =
          int (length (filter (\<lambda>row. value_at (columns (table x)) row ''sequenceDateISO'' \<noteq>
              Some (PyStr ''N/A'')) (rows (table x))))"
      unfolding x(3) using p by simp
  qed
qed

theorem C10_report_totals_witness:
  "status (main scenario_world (scenario_argv None None)) = None \<and>
   total_read (stderr (main scenario_world (scenario_argv None None))) = [4] \<and>
   total_parsed (stderr (main scenario_world (scenario_argv None None))) = [3] \<and>
   total_unknown (stderr (main scenario_world (scenario_argv None None))) = [1] \<and>
   unknown_listed (stderr (main scenario_world (scenario_argv None None))) = [''seqB|no-date-here'']"
proof -
  have a: "status (main scenario_world (scenario_argv None None)) = None"
    by code_simp
  have b: "total_read (stderr (main scenario_world (scenario_argv None None))) = [4]"
    "total_parsed (stderr (main scenario_world (scenario_argv None None))) = [3]"
    "total_unknown (stderr (main scenario_world (scenario_argv None None))) = [1]"
    "unknown_listed (stderr (main scenario_world (scenario_argv None None))) = [''seqB|no-date-here'']"
    by code_simp+
  from C10_report_totals[OF a] a b show ?thesis by simp
qed

end
